theory Spec2Isabelle
  imports Main "HOL-Library.Char_ord"
begin

section \<open>The photo viewer of mygram-app: lightbox.js and lazyload.js\<close>

text \<open>
  A shallow embedding of \<^verbatim>\<open>src/js/lightbox.js\<close> (which also holds lazyload.js).
  JavaScript strings are modelled as \<^typ>\<open>string\<close>, one \<^typ>\<open>char\<close> per code unit,
  for code units below 256 (Latin-1). An optional property of a photo record is a
  \<^typ>\<open>string option\<close>, \<open>None\<close> standing for \<^verbatim>\<open>undefined\<close>. Indices are \<^typ>\<open>int\<close>,
  since the code computes \<^verbatim>\<open>_currentIndex - 1\<close> and compares with 0.
\<close>

subsection \<open>Photo records and truthiness\<close>

record photo =
  filename :: string
  slug :: "string option"
  web :: string
  caption :: "string option"
  date :: "string option"
  camera :: "string option"
  lens :: "string option"
  settings :: "string option"
  location :: "string option"

text \<open>\<^verbatim>\<open>if (x)\<close> on an optional string: undefined and the empty string are falsy.\<close>

fun truthy :: "string option \<Rightarrow> bool" where
  "truthy None = False"
| "truthy (Some s) = (s \<noteq> [])"

text \<open>\<^verbatim>\<open>x || ""\<close>\<close>

fun orEmpty :: "string option \<Rightarrow> string" where
  "orEmpty None = []"
| "orEmpty (Some s) = s"

subsection \<open>slugFor\<close>

text \<open>\<^verbatim>\<open>.replace(/\.[^.]+$/, "")\<close>: the match starts at the last dot of the string and needs
  at least one character after it; without such a dot the string is returned as it is.\<close>

definition stripExtension :: "string \<Rightarrow> string" where
  "stripExtension s =
     (let r = rev s;
          ext = takeWhile (\<lambda>c. c \<noteq> CHR ''.'') r;
          rest = dropWhile (\<lambda>c. c \<noteq> CHR ''.'') r
      in if rest = [] \<or> ext = [] then s else rev (tl rest))"

text \<open>\<^verbatim>\<open>.toLowerCase()\<close> on a Latin-1 code unit: A-Z and the accented capitals
  U+00C0..U+00DE (the multiplication sign U+00D7 apart) move up by 32.\<close>

definition toLowerCaseChar :: "char \<Rightarrow> char" where
  "toLowerCaseChar c =
     (let n = of_char c :: nat
      in if (65 \<le> n \<and> n \<le> 90) \<or> (192 \<le> n \<and> n \<le> 222 \<and> n \<noteq> 215)
         then char_of (n + 32) else c)"

definition toLowerCase :: "string \<Rightarrow> string" where
  "toLowerCase s = map toLowerCaseChar s"

text \<open>The character class \<^verbatim>\<open>[a-z0-9]\<close>, and \<^verbatim>\<open>[a-z0-9-]\<close> whose complement
  \<^verbatim>\<open>.replace(/[^a-z0-9-]/g, "-")\<close> rewrites.\<close>

definition isAlnum :: "char \<Rightarrow> bool" where
  "isAlnum c = ((CHR ''a'' \<le> c \<and> c \<le> CHR ''z'') \<or> (CHR ''0'' \<le> c \<and> c \<le> CHR ''9''))"

definition isSlugChar :: "char \<Rightarrow> bool" where
  "isSlugChar c = (isAlnum c \<or> c = CHR ''-'')"

definition replaceNonSlug :: "string \<Rightarrow> string" where
  "replaceNonSlug s = map (\<lambda>c. if isSlugChar c then c else CHR ''-'') s"

text \<open>\<^verbatim>\<open>.replace(/-+/g, "-")\<close>: each maximal run of hyphens (the greedy match) becomes one.\<close>

function collapseHyphens :: "string \<Rightarrow> string" where
  "collapseHyphens [] = []"
| "collapseHyphens (c # cs) =
     (if c = CHR ''-'' then CHR ''-'' # collapseHyphens (dropWhile (\<lambda>d. d = CHR ''-'') cs)
      else c # collapseHyphens cs)"
  by pat_completeness auto
termination
  by (relation "measure length") (auto simp: less_Suc_eq_le length_dropWhile_le)

text \<open>\<^verbatim>\<open>.replace(/^-|-$/g, "")\<close>: one hyphen at the start and one at the end are removed.
  The scan goes left to right, so a lone hyphen is consumed by \<^verbatim>\<open>^-\<close>.\<close>

definition stripLeadingHyphen :: "string \<Rightarrow> string" where
  "stripLeadingHyphen s = (case s of [] \<Rightarrow> [] | c # cs \<Rightarrow> if c = CHR ''-'' then cs else s)"

definition stripTrailingHyphen :: "string \<Rightarrow> string" where
  "stripTrailingHyphen s = (if s \<noteq> [] \<and> last s = CHR ''-'' then butlast s else s)"

definition stripEdgeHyphens :: "string \<Rightarrow> string" where
  "stripEdgeHyphens s = stripTrailingHyphen (stripLeadingHyphen s)"

definition slugFor :: "photo \<Rightarrow> string" where
  "slugFor p =
     (if truthy (slug p) then the (slug p)
      else stripEdgeHyphens (collapseHyphens (replaceNonSlug (toLowerCase
             (stripExtension (filename p))))))"

subsection \<open>Strings and arrays of the host language\<close>

text \<open>\<^verbatim>\<open>s.startsWith(p)\<close>\<close>

definition startsWith :: "string \<Rightarrow> string \<Rightarrow> bool" where
  "startsWith s p = (take (length p) s = p)"

text \<open>\<^verbatim>\<open>s.replace(pat, rep)\<close> with a string pattern: the first occurrence only.\<close>

fun replaceFirst :: "string \<Rightarrow> string \<Rightarrow> string \<Rightarrow> string" where
  "replaceFirst pat rep [] = (if pat = [] then rep else [])"
| "replaceFirst pat rep (c # cs) =
     (if take (length pat) (c # cs) = pat then rep @ drop (length pat) (c # cs)
      else c # replaceFirst pat rep cs)"

text \<open>\<^verbatim>\<open>xs.findIndex(P)\<close>: the first index whose element satisfies \<open>P\<close>, or -1.\<close>

fun findIndex :: "('a \<Rightarrow> bool) \<Rightarrow> 'a list \<Rightarrow> int" where
  "findIndex P [] = - 1"
| "findIndex P (x # xs) =
     (if P x then 0 else (let r = findIndex P xs in if r = - 1 then - 1 else r + 1))"

text \<open>\<^verbatim>\<open>parts.join(sep)\<close>\<close>

fun join :: "string \<Rightarrow> string list \<Rightarrow> string" where
  "join sep [] = []"
| "join sep [x] = x"
| "join sep (x # y # ys) = x @ sep @ join sep (y # ys)"

subsection \<open>Module state of LightboxModule\<close>

text \<open>What \<^verbatim>\<open>formatDate\<close> returns: the empty string, or the en-US long rendering that the
  host's \<^verbatim>\<open>toLocaleDateString\<close> gives for the date string (kept symbolic).\<close>

datatype date_text = NoDate | LongDate string

fun formatDate :: "string option \<Rightarrow> date_text" where
  "formatDate None = NoDate"
| "formatDate (Some d) = (if d = [] then NoDate else LongDate d)"

text \<open>The properties of the page elements that \<^verbatim>\<open>show\<close> writes. The elements themselves are
  taken to exist (with a missing one, \<^verbatim>\<open>show\<close> would raise a TypeError).\<close>

record lightbox_page =
  lightboxPhoto_src :: string
  lightboxPhoto_alt :: string
  lightboxCaption_textContent :: string
  lightboxDate_textContent :: date_text
  lightboxMeta_innerHTML :: string
  lightboxPrev_display :: string
  lightboxNext_display :: string

text \<open>Calls made on the modal collaborator \<^verbatim>\<open>_modal\<close>.\<close>

datatype modal_call = ModalShow | ModalHide

text \<open>
  The module variables \<^verbatim>\<open>_photos\<close>, \<^verbatim>\<open>_currentIndex\<close>, \<^verbatim>\<open>_suppressHashChange\<close> and the touch
  variables of \<^verbatim>\<open>init\<close>, together with what the code reads and writes outside itself:
  \<^item> \<open>modalShown\<close> is \<^verbatim>\<open>modalEl.classList.contains("show")\<close>, the viewer being open;
  \<^item> \<open>hash\<close> is \<^verbatim>\<open>window.location.hash\<close>, the address fragment as the browser stores it;
  \<^item> \<open>modalCalls\<close> logs the calls of \<^verbatim>\<open>_modal.show()\<close> and \<^verbatim>\<open>_modal.hide()\<close>;
  \<^item> \<open>preloads\<close> logs the image requests issued by \<^verbatim>\<open>preload\<close>;
  \<^item> \<open>pendingFrames\<close> counts the callbacks handed to \<^verbatim>\<open>requestAnimationFrame\<close>.
\<close>

record lightbox =
  photos :: "photo list"
  currentIndex :: int
  suppressHashChange :: bool
  modalShown :: bool
  hash :: string
  page :: lightbox_page
  modalCalls :: "modal_call list"
  preloads :: "string list"
  pendingFrames :: nat
  touchStartX :: int
  touchStartY :: int
  touchMoved :: bool

definition WEB_DIR :: string where
  "WEB_DIR = ''photos/web/''"

definition SWIPE_THRESHOLD :: int where
  "SWIPE_THRESHOLD = 50"

definition indexBySlug :: "string \<Rightarrow> lightbox \<Rightarrow> int" where
  "indexBySlug slg s = findIndex (\<lambda>p. slugFor p = slg) (photos s)"

subsection \<open>The address fragment as the browser stores it\<close>

text \<open>
  The text handed to \<^verbatim>\<open>history.replaceState\<close>, or entered as an address, goes through the
  browser's URL parser, and \<^verbatim>\<open>window.location.hash\<close> gives back what the parser stored:
  \<^item> C0 controls and spaces at the end of the text are stripped;
  \<^item> tabs and newlines are removed wherever they are;
  \<^item> every character of the fragment percent-encode set (the C0 controls, everything above
    \<^verbatim>\<open>~\<close>, and space, double quote, \<^verbatim>\<open><\<close>, \<^verbatim>\<open>>\<close>, backquote) is replaced by \<^verbatim>\<open>%XX\<close> for each
    byte of its UTF-8 encoding;
  \<^item> an empty fragment reads as the empty string.
  The module neither encodes nor decodes, so this is all that stands between a slug and
  the fragment read back.
\<close>

definition isC0ControlOrSpace :: "char \<Rightarrow> bool" where
  "isC0ControlOrSpace c = (c \<le> CHR '' '')"

definition isTabOrNewline :: "char \<Rightarrow> bool" where
  "isTabOrNewline c = (c = CHR 0x09 \<or> c = CHR 0x0A \<or> c = CHR 0x0D)"

definition inFragmentPercentEncodeSet :: "char \<Rightarrow> bool" where
  "inFragmentPercentEncodeSet c =
     (c \<le> CHR 0x1F \<or> CHR ''~'' < c \<or> c = CHR '' '' \<or> c = CHR 0x22 \<or> c = CHR ''<''
      \<or> c = CHR ''>'' \<or> c = CHR 0x60)"

definition hexDigit :: "nat \<Rightarrow> char" where
  "hexDigit n = ''0123456789ABCDEF'' ! (n mod 16)"

definition percentEncodeByte :: "nat \<Rightarrow> string" where
  "percentEncodeByte b = [CHR ''%'', hexDigit (b div 16), hexDigit b]"

text \<open>The UTF-8 bytes of a code point below 256: one byte up to U+007F, two above.\<close>

definition utf8Encode :: "char \<Rightarrow> nat list" where
  "utf8Encode c =
     (let n = of_char c :: nat
      in if n < 128 then [n] else [192 + n div 64, 128 + n mod 64])"

definition percentEncodeChar :: "char \<Rightarrow> string" where
  "percentEncodeChar c =
     (if inFragmentPercentEncodeSet c then concat (map percentEncodeByte (utf8Encode c))
      else [c])"

definition percentEncode :: "string \<Rightarrow> string" where
  "percentEncode s = concat (map percentEncodeChar s)"

text \<open>\<^verbatim>\<open>window.location.hash\<close> once the address has got the fragment text \<open>input\<close>, which is
  empty or starts with \<^verbatim>\<open>#\<close>.\<close>

definition locationHash :: "string \<Rightarrow> string" where
  "locationHash input =
     (let stripped = rev (dropWhile isC0ControlOrSpace (rev input));
          cleaned = filter (\<lambda>c. \<not> isTabOrNewline c) stripped;
          stored = percentEncode cleaned
      in if stored = ''#'' then [] else stored)"

text \<open>A text that the parser stores as it is.\<close>

definition fragmentSafe :: "string \<Rightarrow> bool" where
  "fragmentSafe t = list_all (\<lambda>c. \<not> inFragmentPercentEncodeSet c) t"

subsection \<open>Address fragment\<close>

definition setHash :: "string \<Rightarrow> lightbox \<Rightarrow> lightbox" where
  "setHash slg s =
     s\<lparr>suppressHashChange := True, hash := locationHash (''#photo='' @ slg),
       pendingFrames := Suc (pendingFrames s)\<rparr>"

definition clearHash :: "lightbox \<Rightarrow> lightbox" where
  "clearHash s =
     s\<lparr>suppressHashChange := True, hash := [], pendingFrames := Suc (pendingFrames s)\<rparr>"

text \<open>The next animation frame runs every scheduled callback; each one clears the flag.\<close>

definition animationFrame :: "lightbox \<Rightarrow> lightbox" where
  "animationFrame s =
     (if pendingFrames s = 0 then s
      else s\<lparr>suppressHashChange := False, pendingFrames := 0\<rparr>)"

subsection \<open>The modal collaborator\<close>

text \<open>
  Modelled from the spec: the modal-dialog widget (Bootstrap's \<^verbatim>\<open>Modal\<close>, an external
  collaborator whose code is not in the repository) is a "show/hide primitive with an
  'on fully hidden' notification". \<^verbatim>\<open>_modal.show()\<close> makes the dialog visible, which the
  code observes as the class \<^verbatim>\<open>show\<close> on the modal element.
\<close>

definition modal_show :: "lightbox \<Rightarrow> lightbox" where
  "modal_show s = s\<lparr>modalShown := True, modalCalls := modalCalls s @ [ModalShow]\<rparr>"

text \<open>
  Modelled from the spec: \<^verbatim>\<open>_modal.hide()\<close> takes the class away and, once the dialog is
  fully hidden, delivers \<^verbatim>\<open>hidden.bs.modal\<close>, whose listener in \<^verbatim>\<open>init\<close> is \<^verbatim>\<open>clearHash\<close>.
  The transition between the two is collapsed into one step.
\<close>

definition modal_hide :: "lightbox \<Rightarrow> lightbox" where
  "modal_hide s = clearHash (s\<lparr>modalShown := False, modalCalls := modalCalls s @ [ModalHide]\<rparr>)"

text \<open>
  Modelled from the spec: closing is owned by the presentation layer. The user closes the
  dialog through the widget itself (close button, Escape, backdrop), with the same
  notification and no call from the module.
\<close>

definition dismiss :: "lightbox \<Rightarrow> lightbox" where
  "dismiss s = (if modalShown s then clearHash (s\<lparr>modalShown := False\<rparr>) else s)"

subsection \<open>show, preload, open\<close>

text \<open>\<^verbatim>\<open>show\<close> and \<^verbatim>\<open>open\<close> are reserved words of the proof language; the functions are
  named \<open>show_lightbox\<close> and \<open>open_lightbox\<close> here.\<close>

definition preload :: "int \<Rightarrow> lightbox \<Rightarrow> lightbox" where
  "preload index s =
     (if index < 0 \<or> index \<ge> int (length (photos s)) then s
      else s\<lparr>preloads := preloads s @ [WEB_DIR @ web (photos s ! nat index)]\<rparr>)"

definition metaParts :: "photo \<Rightarrow> string list" where
  "metaParts p =
     (if truthy (camera p) then [''<i class=\"bi bi-camera me-1\"></i>'' @ the (camera p)] else []) @
     (if truthy (lens p) then [''<i class=\"bi bi-aperture me-1\"></i>'' @ the (lens p)] else []) @
     (if truthy (settings p) then [''<i class=\"bi bi-sliders me-1\"></i>'' @ the (settings p)] else []) @
     (if truthy (location p) then [''<i class=\"bi bi-geo-alt me-1\"></i>'' @ the (location p)] else [])"

definition render :: "int \<Rightarrow> photo \<Rightarrow> nat \<Rightarrow> lightbox_page" where
  "render index p n =
     \<lparr>lightboxPhoto_src = WEB_DIR @ web p,
      lightboxPhoto_alt = orEmpty (caption p),
      lightboxCaption_textContent = orEmpty (caption p),
      lightboxDate_textContent = formatDate (date p),
      lightboxMeta_innerHTML = join ''<br>'' (metaParts p),
      lightboxPrev_display = (if index > 0 then [] else ''none''),
      lightboxNext_display = (if index < int n - 1 then [] else ''none'')\<rparr>"

definition show_lightbox :: "int \<Rightarrow> lightbox \<Rightarrow> lightbox" where
  "show_lightbox index s =
     (if index < 0 \<or> index \<ge> int (length (photos s)) then s
      else
        let p = photos s ! nat index;
            s1 = s\<lparr>currentIndex := index, page := render index p (length (photos s))\<rparr>;
            s2 = setHash (slugFor p) s1;
            s3 = preload (index - 1) s2
        in preload (index + 1) s3)"

text \<open>\<^verbatim>\<open>open\<close> calls \<^verbatim>\<open>show(index)\<close> and then \<^verbatim>\<open>_modal.show()\<close>, whatever \<^verbatim>\<open>show\<close> did.\<close>

definition open_lightbox :: "int \<Rightarrow> lightbox \<Rightarrow> lightbox" where
  "open_lightbox index s = modal_show (show_lightbox index s)"

subsection \<open>Startup and listeners\<close>

definition checkHash :: "lightbox \<Rightarrow> lightbox" where
  "checkHash s =
     (let h = hash s
      in if \<not> startsWith h ''#photo='' then s
         else
           let slg = replaceFirst ''#photo='' [] h;
               idx = indexBySlug slg s
           in if idx \<noteq> - 1 then open_lightbox idx s else s)"

text \<open>The page before \<^verbatim>\<open>init\<close>: the module's initial values, nothing rendered.\<close>

definition blank_page :: lightbox_page where
  "blank_page =
     \<lparr>lightboxPhoto_src = [], lightboxPhoto_alt = [], lightboxCaption_textContent = [],
      lightboxDate_textContent = NoDate, lightboxMeta_innerHTML = [],
      lightboxPrev_display = [], lightboxNext_display = []\<rparr>"

text \<open>\<^verbatim>\<open>init(photos)\<close> on a page loaded with fragment \<open>h\<close>.\<close>

definition init :: "photo list \<Rightarrow> string \<Rightarrow> lightbox" where
  "init ps h =
     checkHash
       \<lparr>photos = ps, currentIndex = 0, suppressHashChange = False, modalShown = False,
        hash = locationHash h, page = blank_page, modalCalls = [], preloads = [],
        pendingFrames = 0, touchStartX = 0, touchStartY = 0, touchMoved = False\<rparr>"

definition clickPrev :: "lightbox \<Rightarrow> lightbox" where
  "clickPrev s = show_lightbox (currentIndex s - 1) s"

definition clickNext :: "lightbox \<Rightarrow> lightbox" where
  "clickNext s = show_lightbox (currentIndex s + 1) s"

definition keydown :: "string \<Rightarrow> lightbox \<Rightarrow> lightbox" where
  "keydown key s =
     (if \<not> modalShown s then s
      else
        let s1 = (if key = ''ArrowLeft'' then show_lightbox (currentIndex s - 1) s else s)
        in if key = ''ArrowRight'' then show_lightbox (currentIndex s1 + 1) s1 else s1)"

text \<open>The touch listeners; \<^verbatim>\<open>screenX\<close> and \<^verbatim>\<open>screenY\<close> of the changed touch are integers.\<close>

definition touchstart :: "int \<Rightarrow> int \<Rightarrow> lightbox \<Rightarrow> lightbox" where
  "touchstart x y s = s\<lparr>touchStartX := x, touchStartY := y, touchMoved := False\<rparr>"

definition touchmove :: "lightbox \<Rightarrow> lightbox" where
  "touchmove s = s\<lparr>touchMoved := True\<rparr>"

definition touchend :: "int \<Rightarrow> int \<Rightarrow> lightbox \<Rightarrow> lightbox" where
  "touchend x y s =
     (if \<not> touchMoved s then s
      else
        let dx = x - touchStartX s;
            dy = y - touchStartY s
        in if \<bar>dx\<bar> > SWIPE_THRESHOLD \<and> \<bar>dx\<bar> > \<bar>dy\<bar>
           then (if dx < 0 then show_lightbox (currentIndex s + 1) s
                 else show_lightbox (currentIndex s - 1) s)
           else s)"

text \<open>The \<^verbatim>\<open>hashchange\<close> listener; it reads the fragment from \<^verbatim>\<open>window.location.hash\<close>.\<close>

definition onHashChange :: "lightbox \<Rightarrow> lightbox" where
  "onHashChange s =
     (if suppressHashChange s then s
      else
        let h = hash s
        in if startsWith h ''#photo='' then
             (let slg = replaceFirst ''#photo='' [] h;
                  idx = indexBySlug slg s
              in if idx \<noteq> - 1
                 then (if modalShown s then show_lightbox idx s else open_lightbox idx s)
                 else s)
           else if modalShown s then modal_hide s
           else s)"

text \<open>The browser changes the fragment to the text \<open>h\<close> (back, forward, a followed link, an
  edited address) and notifies; the listener reads it as the parser stored it.\<close>

definition externalChange :: "string \<Rightarrow> lightbox \<Rightarrow> lightbox" where
  "externalChange h s = onHashChange (s\<lparr>hash := locationHash h\<rparr>)"

subsection \<open>Input events\<close>

text \<open>Everything that can reach the module after \<^verbatim>\<open>init\<close>: the exported \<^verbatim>\<open>open\<close>, the
  listeners, the animation-frame callback and the user closing the dialog.\<close>

datatype event =
  Open int
| ClickPrev
| ClickNext
| KeyDown string
| TouchStart int int
| TouchMove
| TouchEnd int int
| ExternalChange string
| AnimationFrame
| Dismiss

fun step :: "event \<Rightarrow> lightbox \<Rightarrow> lightbox" where
  "step (Open i) s = open_lightbox i s"
| "step ClickPrev s = clickPrev s"
| "step ClickNext s = clickNext s"
| "step (KeyDown k) s = keydown k s"
| "step (TouchStart x y) s = touchstart x y s"
| "step TouchMove s = touchmove s"
| "step (TouchEnd x y) s = touchend x y s"
| "step (ExternalChange h) s = externalChange h s"
| "step AnimationFrame s = animationFrame s"
| "step Dismiss s = dismiss s"

definition run :: "event list \<Rightarrow> lightbox \<Rightarrow> lightbox" where
  "run es s = fold step es s"

text \<open>The index is one of the catalog.\<close>

definition validIndex :: "lightbox \<Rightarrow> bool" where
  "validIndex s = (0 \<le> currentIndex s \<and> currentIndex s < int (length (photos s)))"

subsection \<open>The normalisation as the specification words it\<close>

text \<open>
  "Lowercase, non-alphanumeric runs collapsed to a single hyphen, leading/trailing hyphens
  stripped", read over the alphabet \<^verbatim>\<open>[a-z0-9]\<close> once lowercased. This definition follows
  the specification's sentence, not the code; it is compared with \<^const>\<open>slugFor\<close> below.
\<close>

function collapseRuns :: "string \<Rightarrow> string" where
  "collapseRuns [] = []"
| "collapseRuns (c # cs) =
     (if isAlnum c then c # collapseRuns cs
      else CHR ''-'' # collapseRuns (dropWhile (\<lambda>d. \<not> isAlnum d) cs))"
  by pat_completeness auto
termination
  by (relation "measure length") (auto simp: less_Suc_eq_le length_dropWhile_le)

definition stripHyphens :: "string \<Rightarrow> string" where
  "stripHyphens s =
     rev (dropWhile (\<lambda>c. c = CHR ''-'') (rev (dropWhile (\<lambda>c. c = CHR ''-'') s)))"

text \<open>No two hyphens next to each other.\<close>

abbreviation noDouble :: "string \<Rightarrow> bool" where
  "noDouble \<equiv> successively (\<lambda>a b. \<not> (a = CHR ''-'' \<and> b = CHR ''-''))"

definition spec_normalize :: "string \<Rightarrow> string" where
  "spec_normalize s = stripHyphens (collapseRuns (toLowerCase s))"

subsection \<open>share and showToast\<close>

text \<open>
  What \<^verbatim>\<open>share\<close> meets in the browser:
  \<^item> \<^verbatim>\<open>navigator.clipboard\<close> is undefined (an insecure context or a browser without the
    asynchronous clipboard), or \<^verbatim>\<open>writeText\<close> returns a promise that resolves or rejects;
  \<^item> \<^verbatim>\<open>document.execCommand("copy")\<close> returns true, returns false, or throws;
  \<^item> the elements \<^verbatim>\<open>shareToast\<close> and \<^verbatim>\<open>shareToastBody\<close> exist or not.
\<close>

datatype clipboard_api = ClipboardUndefined | WriteResolves | WriteRejects

datatype exec_copy = ExecTrue | ExecFalse | ExecThrows

datatype js_error = TypeError | ExecCommandError

record share_env =
  href :: string
  clipboardApi :: clipboard_api
  execCommandCopy :: exec_copy
  shareToastEl :: bool
  shareToastBodyEl :: bool

record toast =
  message :: string
  delay :: nat

text \<open>
  What a call of \<^verbatim>\<open>share\<close> leaves behind once its promise has settled: the text put on the
  clipboard, the toasts shown, the temporary textarea elements still in the document, and
  the exception that escaped (thrown by \<^verbatim>\<open>share\<close> itself or left as an unhandled rejection).
\<close>

record share_result =
  clipboardText :: "string option"
  toasts :: "toast list"
  textareas :: nat
  raised :: "js_error option"

definition showToast :: "string \<Rightarrow> share_env \<Rightarrow> share_result \<Rightarrow> share_result" where
  "showToast msg env r =
     (if \<not> shareToastEl env \<or> \<not> shareToastBodyEl env then r
      else r\<lparr>toasts := toasts r @ [\<lparr>message = msg, delay = 2000\<rparr>]\<rparr>)"

definition share :: "share_env \<Rightarrow> share_result" where
  "share env =
     (let url = href env;
          r0 = \<lparr>clipboardText = None, toasts = [], textareas = 0, raised = None\<rparr>
      in case clipboardApi env of
           ClipboardUndefined \<Rightarrow> r0\<lparr>raised := Some TypeError\<rparr>
         | WriteResolves \<Rightarrow>
             showToast ''Link copied to clipboard'' env (r0\<lparr>clipboardText := Some url\<rparr>)
         | WriteRejects \<Rightarrow>
             (let r1 = r0\<lparr>textareas := 1\<rparr>
              in case execCommandCopy env of
                   ExecThrows \<Rightarrow> r1\<lparr>raised := Some ExecCommandError\<rparr>
                 | ExecTrue \<Rightarrow>
                     showToast ''Link copied to clipboard'' env
                       (r1\<lparr>clipboardText := Some url, textareas := 0\<rparr>)
                 | ExecFalse \<Rightarrow>
                     showToast ''Link copied to clipboard'' env (r1\<lparr>textareas := 0\<rparr>)))"

subsection \<open>LazyLoad\<close>

text \<open>
  An \<^verbatim>\<open>img\<close> element with the attributes and properties the module touches. A missing
  attribute is \<open>None\<close> (\<^verbatim>\<open>getAttribute\<close> gives null). \<open>loadListeners\<close> counts the one-shot
  \<^verbatim>\<open>load\<close> listeners added. The document's images are a list; an element is known by its
  position, so two notifications for the same element meet the same, updated element.
\<close>

record img =
  lazyClass :: bool
  dataSrc :: "string option"
  dataSrcset :: "string option"
  src :: "string option"
  srcset :: "string option"
  loadListeners :: nat

text \<open>\<open>observer\<close> is the module variable: null, or an observer with its set of targets.\<close>

record lazyload =
  images :: "img list"
  observer :: "nat set option"

record entry =
  target :: nat
  isIntersecting :: bool

text \<open>\<^verbatim>\<open>document.querySelectorAll("img.lazy[data-src]")\<close>: the attribute has to be present,
  whatever its value.\<close>

definition lazyImages :: "lazyload \<Rightarrow> nat set" where
  "lazyImages st =
     set (filter (\<lambda>i. lazyClass (images st ! i) \<and> dataSrc (images st ! i) \<noteq> None)
            [0 ..< length (images st)])"

definition observe :: "lazyload \<Rightarrow> lazyload" where
  "observe st = st\<lparr>observer := Some (lazyImages st)\<rparr>"

definition refresh :: "lazyload \<Rightarrow> lazyload" where
  "refresh st =
     (case observer st of
        None \<Rightarrow> st
      | Some targets \<Rightarrow> st\<lparr>observer := Some (targets \<union> lazyImages st)\<rparr>)"

text \<open>The real source put on an element, as the body of the \<^verbatim>\<open>forEach\<close> callback does it.\<close>

definition loadImage :: "img \<Rightarrow> img" where
  "loadImage im =
     (let im1 = (if truthy (dataSrcset im)
                 then im\<lparr>srcset := dataSrcset im, dataSrcset := None\<rparr> else im)
      in im1\<lparr>src := dataSrc im, dataSrc := None, loadListeners := Suc (loadListeners im1)\<rparr>)"

text \<open>One round of the \<^verbatim>\<open>forEach\<close> callback. The browser reports elements of the document
  only, so an entry whose target is no element is passed over. \<^verbatim>\<open>onIntersect\<close> runs as the
  observer's own callback, so the module variable holds an observer whenever it runs.\<close>

definition onEntry :: "entry \<Rightarrow> lazyload \<Rightarrow> lazyload" where
  "onEntry e st =
     (if \<not> isIntersecting e then st
      else if target e \<ge> length (images st) then st
      else
        let im = images st ! target e
        in if \<not> truthy (dataSrc im) then st
           else st\<lparr>images := (images st)[target e := loadImage im],
                   observer := map_option (\<lambda>targets. targets - {target e}) (observer st)\<rparr>)"

definition onIntersect :: "entry list \<Rightarrow> lazyload \<Rightarrow> lazyload" where
  "onIntersect entries st = fold onEntry entries st"

subsection \<open>Example inputs\<close>

definition example_photo :: "string \<Rightarrow> string option \<Rightarrow> photo" where
  "example_photo f sl =
     \<lparr>filename = f, slug = sl, web = f, caption = Some ''Harbour'', date = Some ''2024-05-01'',
      camera = Some ''X100V'', lens = None, settings = None, location = None\<rparr>"

text \<open>Three records whose slugs are a, b and c.\<close>

definition example_catalog :: "photo list" where
  "example_catalog =
     [example_photo ''A.jpg'' None, example_photo ''img_2.jpg'' (Some ''b''),
      example_photo ''c.JPG'' None]"

text \<open>One record whose explicit slug holds a space.\<close>

definition example_spaced :: "photo list" where
  "example_spaced = [example_photo ''x.jpg'' (Some ''my photo'')]"

definition example_img :: "string option \<Rightarrow> string option \<Rightarrow> img" where
  "example_img ds dss =
     \<lparr>lazyClass = True, dataSrc = ds, dataSrcset = dss, src = None, srcset = None,
      loadListeners = 0\<rparr>"

definition example_page :: lazyload where
  "example_page =
     observe \<lparr>images = [example_img (Some ''t/a.jpg'') (Some ''t/a.jpg 1x, t/a2.jpg 2x''),
                         example_img (Some []) None,
                         example_img (Some ''t/c.jpg'') None],
              observer = None\<rparr>"

text \<open>The viewer opened by a deep link to the first photo, one animation frame later.\<close>

definition example_open :: lightbox where
  "example_open = animationFrame (init example_catalog ''#photo=a'')"

section \<open>Properties\<close>

subsection \<open>Host-language helpers\<close>

lemma findIndex_ge: "- 1 \<le> findIndex P xs"
  by (induction xs) (auto simp: Let_def)

lemma findIndex_none: "findIndex P xs = - 1 \<longleftrightarrow> (\<forall>x \<in> set xs. \<not> P x)"
proof (induction xs)
  case Nil
  then show ?case by simp
next
  case (Cons x xs)
  have "findIndex P xs + 1 \<noteq> - 1" using findIndex_ge [of P xs] by simp
  with Cons show ?case by (auto simp: Let_def)
qed

lemma findIndex_found:
  assumes "findIndex P xs \<noteq> - 1"
  shows "0 \<le> findIndex P xs \<and> findIndex P xs < int (length xs)
         \<and> P (xs ! nat (findIndex P xs))
         \<and> (\<forall>j < nat (findIndex P xs). \<not> P (xs ! j))"
  using assms
proof (induction xs)
  case Nil
  then show ?case by simp
next
  case (Cons x xs)
  show ?case
  proof (cases "P x")
    case True
    then show ?thesis by simp
  next
    case False
    with Cons.prems have ne: "findIndex P xs \<noteq> - 1" by (auto simp: Let_def split: if_splits)
    from Cons.IH [OF ne] have ih: "0 \<le> findIndex P xs" "findIndex P xs < int (length xs)"
      "P (xs ! nat (findIndex P xs))" "\<forall>j < nat (findIndex P xs). \<not> P (xs ! j)" by auto
    from False ne have eq: "findIndex P (x # xs) = findIndex P xs + 1" by (simp add: Let_def)
    have n: "nat (findIndex P xs + 1) = Suc (nat (findIndex P xs))" using ih(1) by simp
    show ?thesis unfolding eq n using ih False
      by (auto simp: less_Suc_eq_0_disj)
  qed
qed

lemma replaceFirst_prefix:
  "startsWith h p \<Longrightarrow> replaceFirst p [] h = drop (length p) h"
  by (cases h) (auto simp: startsWith_def)

subsection \<open>The stored fragment\<close>

lemma hexDigit_safe: "\<not> inFragmentPercentEncodeSet (hexDigit n)"
proof -
  have "hexDigit n \<in> set ''0123456789ABCDEF''"
    unfolding hexDigit_def by (rule nth_mem) simp
  then show ?thesis
    by (auto simp: inFragmentPercentEncodeSet_def)
qed

lemma percentEncodeByte_safe:
  "d \<in> set (percentEncodeByte b) \<Longrightarrow> \<not> inFragmentPercentEncodeSet d"
  using hexDigit_safe by (auto simp: percentEncodeByte_def inFragmentPercentEncodeSet_def)

lemma percentEncodeChar_safe:
  "d \<in> set (percentEncodeChar c) \<Longrightarrow> \<not> inFragmentPercentEncodeSet d"
  using percentEncodeByte_safe
  by (auto simp: percentEncodeChar_def split: if_splits)

lemma fragmentSafe_percentEncode: "fragmentSafe (percentEncode t)"
  using percentEncodeChar_safe
  by (auto simp: fragmentSafe_def percentEncode_def list_all_iff)

lemma fragmentSafe_locationHash: "fragmentSafe (locationHash h)"
  using fragmentSafe_percentEncode
  by (simp add: locationHash_def Let_def fragmentSafe_def)

lemma locationHash_not_hash_sign: "locationHash h \<noteq> ''#''"
  by (simp add: locationHash_def Let_def)

lemma control_or_space_encoded:
  assumes "isC0ControlOrSpace c"
  shows "inFragmentPercentEncodeSet c"
proof -
  from assms have le: "of_char c \<le> (32::nat)"
    by (simp add: isC0ControlOrSpace_def less_eq_char_def)
  show ?thesis
  proof (cases "of_char c = (32::nat)")
    case True
    then have "of_char c = (of_char (CHR '' '') :: nat)" by simp
    then have "c = CHR '' ''" by (simp only: of_char_eq_iff)
    then show ?thesis by (simp add: inFragmentPercentEncodeSet_def)
  next
    case False
    with le have "of_char c \<le> (31::nat)" by simp
    then have "c \<le> CHR 0x1F" by (simp add: less_eq_char_def)
    then show ?thesis unfolding inFragmentPercentEncodeSet_def by blast
  qed
qed

lemma tab_or_newline_encoded:
  assumes "isTabOrNewline c"
  shows "inFragmentPercentEncodeSet c"
proof -
  from assms consider "c = CHR 0x09" | "c = CHR 0x0A" | "c = CHR 0x0D"
    unfolding isTabOrNewline_def by blast
  then have "isC0ControlOrSpace c"
    by cases (simp_all add: isC0ControlOrSpace_def)
  then show ?thesis by (rule control_or_space_encoded)
qed

lemma safe_char_kept:
  assumes "\<not> inFragmentPercentEncodeSet c"
  shows "\<not> isC0ControlOrSpace c" and "\<not> isTabOrNewline c" and "percentEncodeChar c = [c]"
  using assms control_or_space_encoded tab_or_newline_encoded
  by (blast, blast, simp add: percentEncodeChar_def)

lemma percentEncode_safe_id: "fragmentSafe t \<Longrightarrow> percentEncode t = t"
  by (induction t) (simp_all add: fragmentSafe_def percentEncode_def safe_char_kept(3))

lemma strip_safe_id:
  assumes "fragmentSafe t"
  shows "rev (dropWhile isC0ControlOrSpace (rev t)) = t"
proof (cases t rule: rev_cases)
  case Nil
  then show ?thesis by simp
next
  case (snoc ys y)
  with assms have "\<not> isC0ControlOrSpace y"
    by (simp add: fragmentSafe_def safe_char_kept(1))
  with snoc show ?thesis by simp
qed

lemma filter_safe_id:
  "fragmentSafe t \<Longrightarrow> filter (\<lambda>c. \<not> isTabOrNewline c) t = t"
  by (induction t) (simp_all add: fragmentSafe_def safe_char_kept(2))

lemma locationHash_safe_id:
  assumes "fragmentSafe t" and "t \<noteq> ''#''"
  shows "locationHash t = t"
  using assms
  by (simp add: locationHash_def Let_def strip_safe_id filter_safe_id percentEncode_safe_id)

lemma locationHash_idem: "locationHash (locationHash h) = locationHash h"
  by (rule locationHash_safe_id) (rule fragmentSafe_locationHash, rule locationHash_not_hash_sign)

lemma fragmentSafe_append: "fragmentSafe (a @ b) = (fragmentSafe a \<and> fragmentSafe b)"
  by (simp add: fragmentSafe_def)

lemma fragmentSafe_prefix: "fragmentSafe ''#photo=''"
  by (simp add: fragmentSafe_def inFragmentPercentEncodeSet_def)

lemma fragmentSafe_photo: "fragmentSafe (''#photo='' @ slg) = fragmentSafe slg"
  by (simp only: fragmentSafe_append fragmentSafe_prefix simp_thms)

lemma locationHash_photo_safe:
  assumes "fragmentSafe slg"
  shows "locationHash (''#photo='' @ slg) = ''#photo='' @ slg"
proof (rule locationHash_safe_id)
  show "fragmentSafe (''#photo='' @ slg)" using assms by (simp only: fragmentSafe_photo)
  show "''#photo='' @ slg \<noteq> ''#''" by simp
qed

lemma locationHash_photo_unsafe:
  assumes "\<not> fragmentSafe slg"
  shows "locationHash h \<noteq> ''#photo='' @ slg"
proof
  assume "locationHash h = ''#photo='' @ slg"
  with fragmentSafe_locationHash [of h] have "fragmentSafe (''#photo='' @ slg)"
    by (simp only:)
  with assms show False by (simp only: fragmentSafe_photo)
qed





subsection \<open>What show and preload touch\<close>

lemma preload_fields [simp]:
  "currentIndex (preload i s) = currentIndex s"
  "hash (preload i s) = hash s"
  "modalShown (preload i s) = modalShown s"
  "modalCalls (preload i s) = modalCalls s"
  "suppressHashChange (preload i s) = suppressHashChange s"
  "photos (preload i s) = photos s"
  "pendingFrames (preload i s) = pendingFrames s"
  "page (preload i s) = page s"
  by (simp_all add: preload_def)

lemma show_lightbox_out_of_range:
  "index < 0 \<or> index \<ge> int (length (photos s)) \<Longrightarrow> show_lightbox index s = s"
  by (simp add: show_lightbox_def)

lemma show_lightbox_in_range:
  assumes "0 \<le> index" "index < int (length (photos s))"
  shows "currentIndex (show_lightbox index s) = index"
    and "hash (show_lightbox index s)
         = locationHash (''#photo='' @ slugFor (photos s ! nat index))"
    and "suppressHashChange (show_lightbox index s)"
    and "page (show_lightbox index s) = render index (photos s ! nat index) (length (photos s))"
  using assms by (simp_all add: show_lightbox_def Let_def setHash_def)

lemma show_lightbox_keeps [simp]:
  "modalShown (show_lightbox index s) = modalShown s"
  "modalCalls (show_lightbox index s) = modalCalls s"
  "photos (show_lightbox index s) = photos s"
  by (simp_all add: show_lightbox_def Let_def setHash_def)

subsection \<open>Opening at a valid index\<close>

lemma open_lightbox_in_range:
  assumes "0 \<le> i" and "i < int (length (photos s))"
  shows "modalShown (open_lightbox i s)"
    and "currentIndex (open_lightbox i s) = i"
    and "hash (open_lightbox i s) = locationHash (''#photo='' @ slugFor (photos s ! nat i))"
    and "modalCalls (open_lightbox i s) = modalCalls s @ [ModalShow]"
  using show_lightbox_in_range [OF assms]
  by (simp_all add: open_lightbox_def modal_show_def)




subsection \<open>Self-published fragments\<close>

text \<open>
  Claim C2. For every slug, \<^verbatim>\<open>setHash(slug)\<close> sets the suppression flag and writes the
  fragment (which the browser stores in its own form); a change notification that carries the same slug and arrives before the
  animation-frame callback has cleared the flag leaves the whole state as it is. The
  flag is down again after the next animation frame.
\<close>

theorem self_published_change_is_ignored:
  "suppressHashChange (setHash slg s)
   \<and> hash (setHash slg s) = locationHash (''#photo='' @ slg)
   \<and> onHashChange (setHash slg s) = setHash slg s
   \<and> externalChange (''#photo='' @ slg) (setHash slg s) = setHash slg s
   \<and> \<not> suppressHashChange (animationFrame (setHash slg s))"
  by (simp add: setHash_def onHashChange_def externalChange_def animationFrame_def)

subsection \<open>Reconciling external fragment changes\<close>

lemma indexBySlug_known:
  assumes "slg \<in> slugFor ` set (photos s)"
  shows "0 \<le> indexBySlug slg s \<and> indexBySlug slg s < int (length (photos s))
         \<and> slugFor (photos s ! nat (indexBySlug slg s)) = slg
         \<and> (\<forall>j < nat (indexBySlug slg s). slugFor (photos s ! j) \<noteq> slg)"
proof -
  from assms have "indexBySlug slg s \<noteq> - 1"
    unfolding indexBySlug_def findIndex_none by auto
  then show ?thesis
    unfolding indexBySlug_def by (rule findIndex_found)
qed

lemma indexBySlug_unknown:
  "slg \<notin> slugFor ` set (photos s) \<Longrightarrow> indexBySlug slg s = - 1"
  unfolding indexBySlug_def findIndex_none by auto

lemma onHashChange_known_closed:
  assumes "\<not> suppressHashChange s" "hash s = ''#photo='' @ slg"
    "slg \<in> slugFor ` set (photos s)" "\<not> modalShown s"
  shows "onHashChange s = open_lightbox (indexBySlug slg s) s"
proof -
  from indexBySlug_known [OF assms(3)] have "indexBySlug slg s \<noteq> - 1" by auto
  with assms(1,4) show ?thesis
    by (simp add: onHashChange_def assms(2) Let_def startsWith_def)
qed

lemma onHashChange_known_open:
  assumes "\<not> suppressHashChange s" "hash s = ''#photo='' @ slg"
    "slg \<in> slugFor ` set (photos s)" "modalShown s"
  shows "onHashChange s = show_lightbox (indexBySlug slg s) s"
proof -
  from indexBySlug_known [OF assms(3)] have "indexBySlug slg s \<noteq> - 1" by auto
  with assms(1,4) show ?thesis
    by (simp add: onHashChange_def assms(2) Let_def startsWith_def)
qed

lemma onHashChange_unknown:
  assumes "\<not> suppressHashChange s" "hash s = ''#photo='' @ slg"
    "slg \<notin> slugFor ` set (photos s)"
  shows "onHashChange s = s"
  using assms(1) indexBySlug_unknown [OF assms(3)]
  by (simp add: onHashChange_def assms(2) Let_def startsWith_def)

lemma onHashChange_no_photo:
  assumes "\<not> suppressHashChange s" "\<not> startsWith (hash s) ''#photo=''"
  shows "onHashChange s = (if modalShown s then modal_hide s else s)"
  using assms unfolding onHashChange_def Let_def by simp

lemma hash_update_fields [simp]:
  "indexBySlug slg (s\<lparr>hash := h\<rparr>) = indexBySlug slg s"
  by (simp add: indexBySlug_def)

text \<open>
  Claim C3 as stated opens or navigates whenever the new fragment encodes the slug of a
  catalog entry. The listener compares the text after \<^verbatim>\<open>#photo=\<close>, still percent-encoded,
  with the raw slugs. For the entry whose slug is \<^verbatim>\<open>my photo\<close>, a link to
  \<^verbatim>\<open>#photo=my photo\<close> is read back as \<^verbatim>\<open>#photo=my%20photo\<close>, no entry is found, and the
  closed viewer stays closed; the same holds for the fragment the viewer itself writes
  for that photo, and for the deep link on page load.
\<close>

theorem known_slug_with_space_is_not_found:
  "''my photo'' \<in> slugFor ` set (photos (init example_spaced []))
   \<and> \<not> suppressHashChange (init example_spaced [])
   \<and> \<not> modalShown (init example_spaced [])
   \<and> externalChange ''#photo=my photo'' (init example_spaced [])
       = (init example_spaced [])\<lparr>hash := ''#photo=my%20photo''\<rparr>
   \<and> \<not> modalShown (externalChange ''#photo=my photo'' (init example_spaced []))
   \<and> hash (show_lightbox 0 (init example_spaced [])) = ''#photo=my%20photo''
   \<and> \<not> modalShown (externalChange ''#photo=my%20photo'' (init example_spaced []))
   \<and> \<not> modalShown (init example_spaced ''#photo=my photo'')"
  by code_simp

text \<open>
  Claim C3, amended. For a fragment-change notification that the suppression flag does not
  swallow, with the new fragment read as the browser stores it:
  \<^item> when it is \<^verbatim>\<open>#photo=\<close> followed by exactly the slug of a catalog entry, the viewer ends
    open at the index of that entry (the first one with this slug), the fragment is
    kept, and the modal is asked to show only if the viewer was closed;
  \<^item> when it does not start with \<^verbatim>\<open>#photo=\<close> and the viewer is open, the viewer closes and
    the fragment is cleared;
  \<^item> when it is \<^verbatim>\<open>#photo=\<close> followed by a text that is the slug of no entry, nothing but
    the fragment itself differs from the state before;
  \<^item> a link \<^verbatim>\<open>#photo=<slug>\<close> is stored as it is when the slug holds no character that the
    URL parser escapes or drops, and no stored fragment ever equals \<^verbatim>\<open>#photo=<slug>\<close>
    for a slug that holds such a character.
\<close>

theorem external_change_reconciliation:
  assumes "\<not> suppressHashChange s"
  shows
   "(locationHash h = ''#photo='' @ slg \<and> slg \<in> slugFor ` set (photos s) \<longrightarrow>
       (let i = indexBySlug slg s; s' = externalChange h s
        in 0 \<le> i \<and> i < int (length (photos s)) \<and> slugFor (photos s ! nat i) = slg
           \<and> (\<forall>j < nat i. slugFor (photos s ! j) \<noteq> slg)
           \<and> currentIndex s' = i \<and> modalShown s' \<and> hash s' = ''#photo='' @ slg
           \<and> modalCalls s' = (if modalShown s then modalCalls s else modalCalls s @ [ModalShow])))
  \<and> (\<not> startsWith (locationHash h) ''#photo='' \<and> modalShown s \<longrightarrow>
       (let s' = externalChange h s
        in \<not> modalShown s' \<and> hash s' = [] \<and> currentIndex s' = currentIndex s
           \<and> modalCalls s' = modalCalls s @ [ModalHide]))
  \<and> (locationHash h = ''#photo='' @ slg \<and> slg \<notin> slugFor ` set (photos s) \<longrightarrow>
       externalChange h s = s\<lparr>hash := ''#photo='' @ slg\<rparr>)
  \<and> (fragmentSafe slg \<longrightarrow> locationHash (''#photo='' @ slg) = ''#photo='' @ slg)
  \<and> (\<not> fragmentSafe slg \<longrightarrow> locationHash h \<noteq> ''#photo='' @ slg)"
proof (intro conjI impI)
  assume a: "locationHash h = ''#photo='' @ slg \<and> slg \<in> slugFor ` set (photos s)"
  then have r: "locationHash h = ''#photo='' @ slg"
    and known: "slg \<in> slugFor ` set (photos s)" by blast+
  let ?t = "s\<lparr>hash := ''#photo='' @ slg\<rparr>"
  let ?i = "indexBySlug slg s"
  have e0: "externalChange h s = onHashChange ?t"
    unfolding externalChange_def r ..
  have pub: "locationHash (''#photo='' @ slg) = ''#photo='' @ slg"
    using locationHash_idem [of h] unfolding r .
  have t: "\<not> suppressHashChange ?t" "hash ?t = ''#photo='' @ slg"
    "slg \<in> slugFor ` set (photos ?t)" "photos ?t = photos s" "modalShown ?t = modalShown s"
    "modalCalls ?t = modalCalls s" "indexBySlug slg ?t = ?i"
    using assms known by simp_all
  from indexBySlug_known [OF known]
  have i: "0 \<le> ?i" "?i < int (length (photos s))" "slugFor (photos s ! nat ?i) = slg"
    "\<forall>j < nat ?i. slugFor (photos s ! j) \<noteq> slg" by auto
  have i': "0 \<le> ?i" "?i < int (length (photos ?t))" using i by simp_all
  have hs: "hash (show_lightbox ?i ?t) = ''#photo='' @ slg"
    unfolding show_lightbox_in_range(2) [OF i'] t(4) i(3) by (rule pub)
  have ho: "hash (open_lightbox ?i ?t) = ''#photo='' @ slg"
    unfolding open_lightbox_in_range(3) [OF i'] t(4) i(3) by (rule pub)
  show "let i = indexBySlug slg s; s' = externalChange h s
        in 0 \<le> i \<and> i < int (length (photos s)) \<and> slugFor (photos s ! nat i) = slg
           \<and> (\<forall>j < nat i. slugFor (photos s ! j) \<noteq> slg)
           \<and> currentIndex s' = i \<and> modalShown s' \<and> hash s' = ''#photo='' @ slg
           \<and> modalCalls s' = (if modalShown s then modalCalls s else modalCalls s @ [ModalShow])"
  proof (cases "modalShown s")
    case True
    then have "modalShown ?t" by simp
    from onHashChange_known_open [OF t(1,2,3) this]
    have e: "externalChange h s = show_lightbox ?i ?t"
      unfolding e0 t(7) .
    have "currentIndex (show_lightbox ?i ?t) = ?i \<and> modalShown (show_lightbox ?i ?t)
          \<and> modalCalls (show_lightbox ?i ?t) = modalCalls s"
      using True show_lightbox_in_range(1) [OF i'] by simp
    with i hs True show ?thesis unfolding Let_def e by simp
  next
    case False
    then have "\<not> modalShown ?t" by simp
    from onHashChange_known_closed [OF t(1,2,3) this]
    have e: "externalChange h s = open_lightbox ?i ?t"
      unfolding e0 t(7) .
    have "currentIndex (open_lightbox ?i ?t) = ?i \<and> modalShown (open_lightbox ?i ?t)
          \<and> modalCalls (open_lightbox ?i ?t) = modalCalls s @ [ModalShow]"
      using open_lightbox_in_range(1,2,4) [OF i'] by simp
    with i ho False show ?thesis unfolding Let_def e by simp
  qed
next
  assume a: "\<not> startsWith (locationHash h) ''#photo='' \<and> modalShown s"
  let ?t = "s\<lparr>hash := locationHash h\<rparr>"
  have "\<not> suppressHashChange ?t" "\<not> startsWith (hash ?t) ''#photo=''"
    using assms a by simp_all
  from onHashChange_no_photo [OF this] a
  have e: "externalChange h s = modal_hide ?t" unfolding externalChange_def by simp
  show "let s' = externalChange h s
        in \<not> modalShown s' \<and> hash s' = [] \<and> currentIndex s' = currentIndex s
           \<and> modalCalls s' = modalCalls s @ [ModalHide]"
    unfolding Let_def e by (simp add: modal_hide_def clearHash_def)
next
  assume a: "locationHash h = ''#photo='' @ slg \<and> slg \<notin> slugFor ` set (photos s)"
  then have r: "locationHash h = ''#photo='' @ slg"
    and unknown: "slg \<notin> slugFor ` set (photos s)" by blast+
  let ?t = "s\<lparr>hash := ''#photo='' @ slg\<rparr>"
  have "\<not> suppressHashChange ?t" "hash ?t = ''#photo='' @ slg"
    "slg \<notin> slugFor ` set (photos ?t)" using assms unknown by simp_all
  from onHashChange_unknown [OF this]
  show "externalChange h s = ?t" unfolding externalChange_def r .
next
  assume "fragmentSafe slg"
  then show "locationHash (''#photo='' @ slg) = ''#photo='' @ slg"
    by (rule locationHash_photo_safe)
next
  assume "\<not> fragmentSafe slg"
  then show "locationHash h \<noteq> ''#photo='' @ slg"
    by (rule locationHash_photo_unsafe)
qed

theorem external_change_reconciliation_witness:
  "\<not> suppressHashChange example_open \<and> modalShown example_open
   \<and> locationHash ''#photo=c'' = ''#photo=c''
   \<and> ''c'' \<in> slugFor ` set (photos example_open)
   \<and> currentIndex (externalChange ''#photo=c'' example_open) = 2
   \<and> modalShown (externalChange ''#photo=c'' example_open)
   \<and> hash (externalChange ''#photo=c'' example_open) = ''#photo=c''
   \<and> modalCalls (externalChange ''#photo=c'' example_open) = modalCalls example_open
   \<and> \<not> startsWith (locationHash ''#top'') ''#photo=''
   \<and> \<not> modalShown (externalChange ''#top'' example_open)
   \<and> hash (externalChange ''#top'' example_open) = []
   \<and> locationHash ''#photo=zebra'' = ''#photo=zebra''
   \<and> ''zebra'' \<notin> slugFor ` set (photos example_open)
   \<and> externalChange ''#photo=zebra'' example_open = example_open\<lparr>hash := ''#photo=zebra''\<rparr>
   \<and> \<not> fragmentSafe ''my photo''
   \<and> locationHash ''#photo=my photo'' \<noteq> ''#photo=my photo''"
proof -
  have h: "\<not> suppressHashChange example_open" by code_simp
  have o: "modalShown example_open" by code_simp
  have lc: "locationHash ''#photo=c'' = ''#photo='' @ ''c''" by code_simp
  have k: "''c'' \<in> slugFor ` set (photos example_open)" by code_simp
  have ix: "indexBySlug ''c'' example_open = 2" by code_simp
  have n: "\<not> startsWith (locationHash ''#top'') ''#photo=''" by code_simp
  have lz: "locationHash ''#photo=zebra'' = ''#photo='' @ ''zebra''" by code_simp
  have u: "''zebra'' \<notin> slugFor ` set (photos example_open)" by code_simp
  have ns: "\<not> fragmentSafe ''my photo''" by code_simp
  from external_change_reconciliation [OF h, of "''#photo=c''" "''c''"] lc k o ix
  have a: "currentIndex (externalChange ''#photo=c'' example_open) = 2
   \<and> modalShown (externalChange ''#photo=c'' example_open)
   \<and> hash (externalChange ''#photo=c'' example_open) = ''#photo=c''
   \<and> modalCalls (externalChange ''#photo=c'' example_open) = modalCalls example_open"
    by (simp add: Let_def)
  from external_change_reconciliation [OF h, of "''#top''" "''c''"] o n
  have c: "\<not> modalShown (externalChange ''#top'' example_open)
   \<and> hash (externalChange ''#top'' example_open) = []"
    by (simp add: Let_def)
  from external_change_reconciliation [OF h, of "''#photo=zebra''" "''zebra''"] lz u
  have b: "externalChange ''#photo=zebra'' example_open = example_open\<lparr>hash := ''#photo=zebra''\<rparr>"
    by simp
  from external_change_reconciliation [OF h, of "''#photo=my photo''" "''my photo''"] ns
  have d: "locationHash ''#photo=my photo'' \<noteq> ''#photo=my photo''"
    by simp
  from lc lz have "locationHash ''#photo=c'' = ''#photo=c''"
    "locationHash ''#photo=zebra'' = ''#photo=zebra''" by simp_all
  with h o k n u ns a b c d show ?thesis by blast
qed

subsection \<open>Opening out of range\<close>

lemma open_lightbox_out_of_range:
  "i < 0 \<or> i \<ge> int (length (photos s)) \<Longrightarrow> open_lightbox i s = modal_show s"
  by (simp add: open_lightbox_def show_lightbox_out_of_range)

text \<open>
  Claim C4 says that \<^verbatim>\<open>open(i)\<close> with \<open>i\<close> outside \<open>[0, count)\<close> changes nothing and asks
  for no modal. The bounds check sits in \<^verbatim>\<open>show\<close> only: its early return comes back into
  \<^verbatim>\<open>open\<close>, which goes on to \<^verbatim>\<open>_modal.show()\<close>. On the three-photo catalog,
  \<^verbatim>\<open>open(5)\<close> and \<^verbatim>\<open>open(-1)\<close> from the closed viewer leave it shown.
\<close>

theorem open_out_of_range_shows_modal:
  "length (photos (init example_catalog [])) = 3
   \<and> \<not> modalShown (init example_catalog [])
   \<and> modalCalls (init example_catalog []) = []
   \<and> modalShown (open_lightbox 5 (init example_catalog []))
   \<and> modalCalls (open_lightbox 5 (init example_catalog [])) = [ModalShow]
   \<and> open_lightbox 5 (init example_catalog []) \<noteq> init example_catalog []
   \<and> modalShown (open_lightbox (- 1) (init example_catalog []))"
  by code_simp

text \<open>
  Claim C5 says that in every reachable state an open viewer has a current index inside
  the catalog. With an empty catalog, \<^verbatim>\<open>open(0)\<close> shows the modal while
  \<^verbatim>\<open>_currentIndex\<close> stays 0, which is no index of an empty list.
\<close>

theorem open_on_empty_catalog_breaks_invariant:
  "photos (run [Open 0] (init [] [])) = []
   \<and> modalShown (run [Open 0] (init [] []))
   \<and> currentIndex (run [Open 0] (init [] [])) = 0
   \<and> \<not> validIndex (run [Open 0] (init [] []))"
  by code_simp


text \<open>Over a catalog that is not empty the index stays inside it, whatever arrives.\<close>

lemma validIndex_show_lightbox: "validIndex s \<Longrightarrow> validIndex (show_lightbox i s)"
proof (cases "0 \<le> i \<and> i < int (length (photos s))")
  case True
  then show ?thesis using show_lightbox_in_range(1) [of i s] by (simp add: validIndex_def)
next
  case False
  assume "validIndex s"
  moreover from False have "show_lightbox i s = s" by (intro show_lightbox_out_of_range) auto
  ultimately show ?thesis by simp
qed

lemma validIndex_fields:
  "currentIndex t = currentIndex s \<Longrightarrow> photos t = photos s \<Longrightarrow> validIndex t = validIndex s"
  by (simp add: validIndex_def)

lemma validIndex_open_lightbox: "validIndex s \<Longrightarrow> validIndex (open_lightbox i s)"
  using validIndex_show_lightbox [of s i]
  by (simp add: open_lightbox_def modal_show_def validIndex_def)

lemma validIndex_onHashChange: "validIndex s \<Longrightarrow> validIndex (onHashChange s)"
  using validIndex_show_lightbox validIndex_open_lightbox
  by (auto simp: onHashChange_def Let_def modal_hide_def clearHash_def validIndex_def)

lemma validIndex_step: "validIndex s \<Longrightarrow> validIndex (step e s)"
proof (cases e)
  case (Open i)
  assume "validIndex s"
  then show ?thesis using Open by (simp add: validIndex_open_lightbox)
next
  case (ExternalChange h)
  assume "validIndex s"
  then have "validIndex (s\<lparr>hash := locationHash h\<rparr>)" by (simp add: validIndex_def)
  then show ?thesis using ExternalChange
    by (simp add: externalChange_def validIndex_onHashChange)
next
  case (KeyDown k)
  assume "validIndex s"
  then show ?thesis using KeyDown
    by (simp add: keydown_def Let_def validIndex_show_lightbox)
next
  case (TouchEnd x y)
  assume "validIndex s"
  then show ?thesis using TouchEnd
    by (simp add: touchend_def Let_def validIndex_show_lightbox)
next
  case ClickPrev
  assume "validIndex s"
  then show ?thesis using ClickPrev by (simp add: clickPrev_def validIndex_show_lightbox)
next
  case ClickNext
  assume "validIndex s"
  then show ?thesis using ClickNext by (simp add: clickNext_def validIndex_show_lightbox)
qed (simp_all add: touchstart_def touchmove_def animationFrame_def dismiss_def clearHash_def
      validIndex_def)

lemma validIndex_run: "validIndex s \<Longrightarrow> validIndex (run es s)"
  unfolding run_def by (induction es arbitrary: s) (simp_all add: validIndex_step)

lemma validIndex_init: "ps \<noteq> [] \<Longrightarrow> validIndex (init ps h)"
proof -
  assume "ps \<noteq> []"
  then have "validIndex \<lparr>photos = ps, currentIndex = 0, suppressHashChange = False,
        modalShown = False, hash = locationHash h, page = blank_page, modalCalls = [], preloads = [],
        pendingFrames = 0, touchStartX = 0, touchStartY = 0, touchMoved = False\<rparr>"
    by (simp add: validIndex_def)
  then show ?thesis
    unfolding init_def checkHash_def Let_def
    by (simp add: validIndex_open_lightbox del: replaceFirst.simps)
qed

lemma nonempty_catalog_index_valid: "ps \<noteq> [] \<Longrightarrow> validIndex (run es (init ps h))"
  by (simp add: validIndex_init validIndex_run)

subsection \<open>Touch gestures\<close>



subsection \<open>Input while the viewer is closed\<close>

text \<open>
  Claim C8 as stated: while the viewer is closed no keyboard, touch or click input
  navigates. Only the \<^verbatim>\<open>keydown\<close> listener tests whether the modal is shown; the click and
  touch listeners call \<^verbatim>\<open>show\<close> at once. On the closed three-photo viewer a click on next,
  or a swipe to the left, moves \<^verbatim>\<open>_currentIndex\<close> from 0 to 1 and writes the fragment.
\<close>

theorem closed_viewer_click_navigates:
  "\<not> modalShown (init example_catalog [])
   \<and> currentIndex (init example_catalog []) = 0
   \<and> hash (init example_catalog []) = []
   \<and> currentIndex (clickNext (init example_catalog [])) = 1
   \<and> hash (clickNext (init example_catalog [])) = ''#photo=b''
   \<and> currentIndex (touchend (- 60) 5 (touchmove (touchstart 0 0 (init example_catalog [])))) = 1"
  by code_simp

text \<open>
  Claim C8, amended. While the viewer is closed, keyboard input leaves the whole state
  unchanged, and no keyboard, click or touch input opens the viewer: the modal stays
  hidden and no call is made on it.
\<close>

theorem closed_viewer_stays_closed:
  assumes "\<not> modalShown s"
  shows "keydown k s = s
       \<and> \<not> modalShown (clickPrev s) \<and> modalCalls (clickPrev s) = modalCalls s
       \<and> \<not> modalShown (clickNext s) \<and> modalCalls (clickNext s) = modalCalls s
       \<and> \<not> modalShown (touchstart x y s) \<and> modalCalls (touchstart x y s) = modalCalls s
       \<and> \<not> modalShown (touchmove s) \<and> modalCalls (touchmove s) = modalCalls s
       \<and> \<not> modalShown (touchend x y s) \<and> modalCalls (touchend x y s) = modalCalls s"
  using assms
  by (simp add: keydown_def clickPrev_def clickNext_def touchstart_def touchmove_def
      touchend_def Let_def)

theorem closed_viewer_stays_closed_witness:
  "\<not> modalShown (init example_catalog [])
   \<and> keydown ''ArrowRight'' (init example_catalog []) = init example_catalog []
   \<and> \<not> modalShown (clickNext (init example_catalog []))
   \<and> modalCalls (clickNext (init example_catalog [])) = []"
proof -
  have c: "\<not> modalShown (init example_catalog [])" by code_simp
  have m: "modalCalls (init example_catalog []) = []" by code_simp
  from closed_viewer_stays_closed [OF c, of "''ArrowRight''" 0 0] c m
  show ?thesis by simp
qed

subsection \<open>slugFor against the specification's normalisation\<close>

lemma isAlnum_hyphen [simp]: "\<not> isAlnum (CHR ''-'')"
  by (simp add: isAlnum_def)

lemma isAlnum_not_hyphen: "isAlnum c \<Longrightarrow> c \<noteq> CHR ''-''"
  by auto

lemma replaced_is_hyphen:
  "((if isSlugChar c then c else CHR ''-'') = CHR ''-'') = (\<not> isAlnum c)"
  by (auto simp: isSlugChar_def)

lemma dropWhile_replaceNonSlug:
  "dropWhile (\<lambda>d. d = CHR ''-'') (replaceNonSlug cs)
   = replaceNonSlug (dropWhile (\<lambda>d. \<not> isAlnum d) cs)"
  unfolding replaceNonSlug_def
  by (induction cs) (simp_all add: replaced_is_hyphen)

lemma collapseHyphens_replaceNonSlug:
  "collapseHyphens (replaceNonSlug xs) = collapseRuns xs"
proof (induction xs rule: collapseRuns.induct)
  case 1
  then show ?case by (simp add: replaceNonSlug_def)
next
  case (2 c cs)
  show ?case
  proof (cases "isAlnum c")
    case True
    then have "replaceNonSlug (c # cs) = c # replaceNonSlug cs" "c \<noteq> CHR ''-''"
      by (auto simp: replaceNonSlug_def isSlugChar_def)
    then show ?thesis using True 2(1) by simp
  next
    case False
    then have "replaceNonSlug (c # cs) = CHR ''-'' # replaceNonSlug cs"
      using replaced_is_hyphen [of c] by (simp add: replaceNonSlug_def)
    then show ?thesis using False 2(2) by (simp add: dropWhile_replaceNonSlug)
  qed
qed

lemma collapseRuns_hd:
  "xs \<noteq> [] \<Longrightarrow> isAlnum (hd xs) \<Longrightarrow> collapseRuns xs \<noteq> [] \<and> hd (collapseRuns xs) = hd xs"
  by (cases xs) auto

lemma dropWhile_hd: "dropWhile P xs \<noteq> [] \<Longrightarrow> \<not> P (hd (dropWhile P xs))"
  using hd_dropWhile by blast

lemma noDouble_collapseRuns: "noDouble (collapseRuns xs)"
proof (induction xs rule: collapseRuns.induct)
  case 1
  then show ?case by simp
next
  case (2 c cs)
  show ?case
  proof (cases "isAlnum c")
    case True
    then show ?thesis using 2(1) by (auto simp: successively_Cons)
  next
    case False
    let ?r = "dropWhile (\<lambda>d. \<not> isAlnum d) cs"
    have "collapseRuns ?r = [] \<or> hd (collapseRuns ?r) \<noteq> CHR ''-''"
    proof (cases "?r = []")
      case True
      show ?thesis unfolding True by simp
    next
      case ne: False
      then have "isAlnum (hd ?r)" using dropWhile_hd [of "\<lambda>d. \<not> isAlnum d" cs] by simp
      with ne collapseRuns_hd [of ?r] show ?thesis by auto
    qed
    then show ?thesis using False 2(2) by (auto simp: successively_Cons)
  qed
qed

lemma stripLeadingHyphen_noDouble:
  "noDouble ys \<Longrightarrow> stripLeadingHyphen ys = dropWhile (\<lambda>c. c = CHR ''-'') ys"
  by (cases ys; cases "tl ys") (auto simp: stripLeadingHyphen_def)

lemma noDouble_stripLeadingHyphen: "noDouble ys \<Longrightarrow> noDouble (stripLeadingHyphen ys)"
  by (cases ys) (auto simp: stripLeadingHyphen_def successively_Cons)

lemma stripTrailingHyphen_rev:
  "stripTrailingHyphen zs = rev (stripLeadingHyphen (rev zs))"
proof (cases zs rule: rev_cases)
  case Nil
  then show ?thesis by (simp add: stripTrailingHyphen_def stripLeadingHyphen_def)
next
  case (snoc ys y)
  then show ?thesis by (simp add: stripTrailingHyphen_def stripLeadingHyphen_def)
qed

lemma noDouble_rev: "noDouble (rev zs) = noDouble zs"
proof -
  have e: "(\<lambda>x y. \<not> (y = CHR ''-'' \<and> x = CHR ''-'')) = (\<lambda>a b. \<not> (a = CHR ''-'' \<and> b = CHR ''-''))"
    by (intro ext) blast
  show ?thesis by (simp only: successively_rev e)
qed

lemma stripEdgeHyphens_noDouble:
  assumes "noDouble ys"
  shows "stripEdgeHyphens ys = stripHyphens ys"
proof -
  let ?zs = "stripLeadingHyphen ys"
  have z: "?zs = dropWhile (\<lambda>c. c = CHR ''-'') ys"
    using assms by (rule stripLeadingHyphen_noDouble)
  have "noDouble (rev ?zs)" using noDouble_stripLeadingHyphen [OF assms] by (simp only: noDouble_rev)
  then have "stripLeadingHyphen (rev ?zs) = dropWhile (\<lambda>c. c = CHR ''-'') (rev ?zs)"
    by (rule stripLeadingHyphen_noDouble)
  then show ?thesis
    unfolding stripEdgeHyphens_def stripHyphens_def stripTrailingHyphen_rev z by simp
qed

lemma filename_normalization:
  "stripEdgeHyphens (collapseHyphens (replaceNonSlug (toLowerCase s))) = spec_normalize s"
  unfolding spec_normalize_def collapseHyphens_replaceNonSlug
  by (rule stripEdgeHyphens_noDouble) (rule noDouble_collapseRuns)

text \<open>
  Claim C6, amended. \<^const>\<open>slugFor\<close> is a function of the record alone. For a record with a
  non-empty explicit slug it returns that field exactly. For a record with no slug, or an
  empty one, it returns the filename with its extension (the last dot and the characters
  after it) removed, then lowercased, every run of characters outside \<^verbatim>\<open>[a-z0-9]\<close>
  collapsed to a single hyphen and leading and trailing hyphens stripped.
\<close>

theorem slugFor_explicit_or_normalized:
  "(slug p = Some s \<and> s \<noteq> [] \<longrightarrow> slugFor p = s)
   \<and> (slug p = None \<or> slug p = Some [] \<longrightarrow>
        slugFor p = spec_normalize (stripExtension (filename p)))"
  by (auto simp: slugFor_def filename_normalization)

theorem slugFor_explicit_or_normalized_witness:
  "slug (example_catalog ! 1) = Some ''b'' \<and> ''b'' \<noteq> [] \<and> slugFor (example_catalog ! 1) = ''b''
   \<and> slug (example_catalog ! 2) = None \<and> filename (example_catalog ! 2) = ''c.JPG''
   \<and> slugFor (example_catalog ! 2) = spec_normalize ''c''"
proof -
  have a: "slug (example_catalog ! 1) = Some ''b''" "slug (example_catalog ! 2) = None"
    "filename (example_catalog ! 2) = ''c.JPG''" "stripExtension ''c.JPG'' = ''c''"
    by code_simp+
  from slugFor_explicit_or_normalized [of "example_catalog ! 1" "''b''"]
       slugFor_explicit_or_normalized [of "example_catalog ! 2" "''b''"] a
  show ?thesis by simp
qed

text \<open>
  Claim C6 as stated gives, for a record without an explicit slug, the normalised filename.
  For \<^verbatim>\<open>IMG_001.jpg\<close> that would be \<^verbatim>\<open>img-001-jpg\<close>; the code removes the extension first
  and returns \<^verbatim>\<open>img-001\<close>. An explicit slug that is the empty string is falsy, so the
  filename is used for it as well.
\<close>

theorem slugFor_strips_extension:
  "slug (example_photo ''IMG_001.jpg'' None) = None
   \<and> slugFor (example_photo ''IMG_001.jpg'' None) = ''img-001''
   \<and> spec_normalize (filename (example_photo ''IMG_001.jpg'' None)) = ''img-001-jpg''
   \<and> slugFor (example_photo ''IMG_001.jpg'' None)
       \<noteq> spec_normalize (filename (example_photo ''IMG_001.jpg'' None))
   \<and> slug (example_photo ''IMG_001.jpg'' (Some [])) = Some []
   \<and> slugFor (example_photo ''IMG_001.jpg'' (Some [])) = ''img-001''"
  by code_simp

subsection \<open>share\<close>

lemma share_resolves:
  assumes "clipboardApi env = WriteResolves" "shareToastEl env" "shareToastBodyEl env"
  shows "toasts (share env) = [\<lparr>message = ''Link copied to clipboard'', delay = 2000\<rparr>]"
    and "clipboardText (share env) = Some (href env)" and "raised (share env) = None"
  using assms by (simp_all add: share_def showToast_def Let_def)

lemma share_rejects_fallback:
  assumes "clipboardApi env = WriteRejects" "execCommandCopy env \<noteq> ExecThrows"
    "shareToastEl env" "shareToastBodyEl env"
  shows "toasts (share env) = [\<lparr>message = ''Link copied to clipboard'', delay = 2000\<rparr>]"
    and "textareas (share env) = 0" and "raised (share env) = None"
  using assms by (simp_all add: share_def showToast_def Let_def split: exec_copy.splits)

lemma share_without_toast:
  assumes "\<not> shareToastEl env \<or> \<not> shareToastBodyEl env"
  shows "toasts (share env) = []"
  using assms
  by (auto simp: share_def showToast_def Let_def split: exec_copy.splits clipboard_api.splits)

text \<open>
  Claim C9 says that the notification is shown after the select-and-copy fallback whenever
  the asynchronous write fails. Where \<^verbatim>\<open>navigator.clipboard\<close> is undefined (the older
  browsers and non-HTTPS pages that the fallback's comment names),
  \<^verbatim>\<open>navigator.clipboard.writeText\<close> raises a TypeError before any promise exists: the
  \<^verbatim>\<open>catch\<close> handler never runs, nothing is copied and nothing is shown.
\<close>

theorem share_without_clipboard_api:
  "share \<lparr>href = ''http://example.org/#photo=a'', clipboardApi = ClipboardUndefined,
          execCommandCopy = ExecTrue, shareToastEl = True, shareToastBodyEl = True\<rparr>
   = \<lparr>clipboardText = None, toasts = [], textareas = 0, raised = Some TypeError\<rparr>"
  by (simp add: share_def)

subsection \<open>Lazy loading\<close>

lemma length_onEntry [simp]: "length (images (onEntry e st)) = length (images st)"
  by (simp add: onEntry_def Let_def)

lemma length_onIntersect [simp]: "length (images (onIntersect es st)) = length (images st)"
  unfolding onIntersect_def by (induction es arbitrary: st) simp_all

lemma loadImage_fields [simp]:
  "dataSrc (loadImage im) = None"
  "src (loadImage im) = dataSrc im"
  "srcset (loadImage im) = (if truthy (dataSrcset im) then dataSrcset im else srcset im)"
  "dataSrcset (loadImage im) = (if truthy (dataSrcset im) then None else dataSrcset im)"
  "loadListeners (loadImage im) = Suc (loadListeners im)"
  "lazyClass (loadImage im) = lazyClass im"
  by (simp_all add: loadImage_def Let_def)

lemma onEntry_image:
  "i < length (images st) \<Longrightarrow>
   images (onEntry e st) ! i =
     (if isIntersecting e \<and> target e = i \<and> truthy (dataSrc (images st ! i))
      then loadImage (images st ! i) else images st ! i)"
  by (auto simp: onEntry_def Let_def nth_list_update)

lemma onIntersect_Cons: "onIntersect (e # es) st = onIntersect es (onEntry e st)"
  by (simp add: onIntersect_def)

lemma onIntersect_image:
  "i < length (images st) \<Longrightarrow>
   images (onIntersect es st) ! i =
     (if truthy (dataSrc (images st ! i)) \<and> (\<exists>e \<in> set es. target e = i \<and> isIntersecting e)
      then loadImage (images st ! i) else images st ! i)"
proof (induction es arbitrary: st)
  case Nil
  then show ?case by (simp add: onIntersect_def)
next
  case (Cons e es)
  let ?st1 = "onEntry e st"
  from Cons.prems have len: "i < length (images ?st1)" by simp
  note ih = Cons.IH [OF len]
  show ?case
  proof (cases "isIntersecting e \<and> target e = i \<and> truthy (dataSrc (images st ! i))")
    case True
    then have "images ?st1 ! i = loadImage (images st ! i)"
      using onEntry_image [OF Cons.prems, of e] by simp
    then have "images (onIntersect es ?st1) ! i = loadImage (images st ! i)"
      using ih by simp
    then show ?thesis using True unfolding onIntersect_Cons by simp
  next
    case False
    have same: "images ?st1 ! i = images st ! i"
      unfolding onEntry_image [OF Cons.prems] using False by (rule if_not_P)
    have "(\<exists>x \<in> set (e # es). target x = i \<and> isIntersecting x \<and> truthy (dataSrc (images st ! i)))
          = (\<exists>x \<in> set es. target x = i \<and> isIntersecting x \<and> truthy (dataSrc (images st ! i)))"
      using False by auto
    then show ?thesis unfolding onIntersect_Cons ih same by auto
  qed
qed

lemma observer_onEntry:
  "observer (onEntry e st) = Some T' \<Longrightarrow> \<exists>T. observer st = Some T \<and> T' \<subseteq> T"
  by (auto simp: onEntry_def Let_def split: if_splits)

lemma observer_onIntersect:
  "observer (onIntersect es st) = Some T' \<Longrightarrow> \<exists>T. observer st = Some T \<and> T' \<subseteq> T"
proof (induction es arbitrary: st T')
  case Nil
  then show ?case by (simp add: onIntersect_def)
next
  case (Cons e es)
  from Cons.prems obtain T1 where t1: "observer (onEntry e st) = Some T1" "T' \<subseteq> T1"
    unfolding onIntersect_Cons using Cons.IH by blast
  from observer_onEntry [OF t1(1)] t1(2) show ?case by blast
qed

lemma unobserved_after_load:
  assumes "i < length (images st)" "truthy (dataSrc (images st ! i))"
    "e \<in> set es" "target e = i" "isIntersecting e"
    "observer (onIntersect es st) = Some T"
  shows "i \<notin> T"
  using assms
proof (induction es arbitrary: st)
  case Nil
  then show ?case by simp
next
  case (Cons e0 es)
  show ?case
  proof (cases "isIntersecting e0 \<and> target e0 = i")
    case True
    from Cons.prems(6) obtain T1 where t1: "observer (onEntry e0 st) = Some T1" "T \<subseteq> T1"
      unfolding onIntersect_Cons using observer_onIntersect by blast
    from True Cons.prems(1,2) t1(1) have "i \<notin> T1"
      by (auto simp: onEntry_def Let_def)
    with t1(2) show ?thesis by blast
  next
    case False
    with Cons.prems(3,4,5) have in_es: "e \<in> set es" by auto
    from False Cons.prems(1) have same: "images (onEntry e0 st) ! i = images st ! i"
      by (auto simp: onEntry_image)
    have len: "i < length (images (onEntry e0 st))" using Cons.prems(1) by simp
    have tr: "truthy (dataSrc (images (onEntry e0 st) ! i))" using same Cons.prems(2) by simp
    from Cons.IH [OF len tr in_es Cons.prems(4,5)] Cons.prems(6)
    show ?thesis unfolding onIntersect_Cons by simp
  qed
qed

text \<open>
  Claim C10, amended. For every image of the document whose \<^verbatim>\<open>data-src\<close> is present and
  not empty: a notification holding an entry for it that intersects the viewport copies
  \<^verbatim>\<open>data-src\<close> to \<^verbatim>\<open>src\<close> and removes it, copies \<^verbatim>\<open>data-srcset\<close> to \<^verbatim>\<open>srcset\<close> and removes
  it when that one is present and not empty (and leaves both alone otherwise), adds one
  load listener and takes the image out of the observer's targets, however many entries
  the notification holds for it; \<^verbatim>\<open>refresh\<close> does not select the image again, and every
  later notification leaves the image as it is.
\<close>

theorem lazy_image_loaded_once:
  assumes "i < length (images st)" and "truthy (dataSrc (images st ! i))"
    and "e \<in> set es" and "target e = i" and "isIntersecting e"
  shows "(let im = images st ! i; st' = onIntersect es st; im' = images st' ! i
          in src im' = dataSrc im \<and> dataSrc im' = None
           \<and> (truthy (dataSrcset im) \<longrightarrow> srcset im' = dataSrcset im \<and> dataSrcset im' = None)
           \<and> (\<not> truthy (dataSrcset im) \<longrightarrow> srcset im' = srcset im \<and> dataSrcset im' = dataSrcset im)
           \<and> loadListeners im' = Suc (loadListeners im)
           \<and> (\<forall>T. observer st' = Some T \<longrightarrow> i \<notin> T)
           \<and> i \<notin> lazyImages st'
           \<and> (\<forall>es'. images (onIntersect es' st') ! i = im'))"
proof -
  let ?st' = "onIntersect es st"
  have im': "images ?st' ! i = loadImage (images st ! i)"
    using assms by (auto simp: onIntersect_image)
  have len: "i < length (images ?st')" using assms(1) by simp
  have later: "\<forall>es'. images (onIntersect es' ?st') ! i = images ?st' ! i"
    unfolding onIntersect_image [OF len] im' by simp
  have unobs: "\<forall>T. observer ?st' = Some T \<longrightarrow> i \<notin> T"
    using unobserved_after_load [OF assms] by blast
  have nolazy: "i \<notin> lazyImages ?st'"
    by (simp add: lazyImages_def im')
  show ?thesis unfolding Let_def using later unobs nolazy by (simp add: im')
qed

theorem lazy_image_loaded_once_witness:
  "0 < length (images example_page) \<and> truthy (dataSrc (images example_page ! 0))
   \<and> src (images (onIntersect [\<lparr>target = 2, isIntersecting = False\<rparr>,
            \<lparr>target = 0, isIntersecting = True\<rparr>] example_page) ! 0) = Some ''t/a.jpg''
   \<and> dataSrc (images (onIntersect [\<lparr>target = 2, isIntersecting = False\<rparr>,
            \<lparr>target = 0, isIntersecting = True\<rparr>] example_page) ! 0) = None"
proof -
  have a: "0 < length (images example_page)" "truthy (dataSrc (images example_page ! 0))"
    "dataSrc (images example_page ! 0) = Some ''t/a.jpg''" by code_simp+
  have m: "\<lparr>target = 0, isIntersecting = True\<rparr>
           \<in> set [\<lparr>target = 2, isIntersecting = False\<rparr>, \<lparr>target = 0, isIntersecting = True\<rparr>]"
    by simp
  from lazy_image_loaded_once [OF a(1,2) m] a show ?thesis by (simp add: Let_def)
qed

text \<open>
  Claim C10 as stated, for every observed image. An image with \<^verbatim>\<open>class="lazy"\<close> and an
  empty \<^verbatim>\<open>data-src\<close> is selected by \<^verbatim>\<open>img.lazy[data-src]\<close> and observed, but
  \<^verbatim>\<open>if (!src) return\<close> passes it over: nothing is copied, the attribute stays, and the
  image stays observed.
\<close>

theorem lazy_empty_data_src_stays:
  "1 \<in> the (observer example_page)
   \<and> dataSrc (images example_page ! 1) = Some []
   \<and> onIntersect [\<lparr>target = 1, isIntersecting = True\<rparr>] example_page = example_page
   \<and> src (images (onIntersect [\<lparr>target = 1, isIntersecting = True\<rparr>] example_page) ! 1) = None
   \<and> 1 \<in> the (observer (onIntersect [\<lparr>target = 1, isIntersecting = True\<rparr>] example_page))"
  by code_simp

end
